theory Spec2Isabelle
  imports Complex_Main
begin

section \<open>Python primitives used by the pipeline\<close>

text \<open>
  Strings are character lists. Numbers that are Python floats in the source are modelled
  as exact rationals: every constant of the source is a short decimal, and the comparisons
  and bounds studied here are decided the same way by exact arithmetic.
\<close>

datatype py_error = KeyError

text \<open>
  \<^verbatim>\<open>xs[a:b]\<close> for arbitrary integers: a negative index counts from the end, and both
  ends are clamped to the list, so a slice never raises.
\<close>

definition slice :: "'a list \<Rightarrow> int \<Rightarrow> int \<Rightarrow> 'a list" where
  "slice xs a b =
     (let n = int (length xs);
          lo = (if a < 0 then max 0 (a + n) else min a n);
          hi = (if b < 0 then max 0 (b + n) else min b n)
      in take (nat (hi - lo)) (drop (nat lo) xs))"

text \<open>\<^verbatim>\<open>str.upper()\<close> on the ASCII letters; other bytes are left alone.\<close>

definition upper_char :: "char \<Rightarrow> char" where
  "upper_char c =
     (let n = (of_char c :: nat) in if 97 \<le> n \<and> n \<le> 122 then char_of (n - 32) else c)"

text \<open>\<^verbatim>\<open>sequence.upper().replace(" ", "").replace("\n", "")\<close>\<close>

definition clean :: "string \<Rightarrow> string" where
  "clean s = filter (\<lambda>c. c \<noteq> CHR 0x0A) (filter (\<lambda>c. c \<noteq> CHR '' '') (map upper_char s))"

text \<open>\<^verbatim>\<open>needle in haystack\<close> on strings: the needle occurs as a contiguous block.\<close>

fun starts_with :: "'a list \<Rightarrow> 'a list \<Rightarrow> bool" where
  "starts_with [] ys = True"
| "starts_with (x # xs) [] = False"
| "starts_with (x # xs) (y # ys) = (x = y \<and> starts_with xs ys)"

fun str_in :: "'a list \<Rightarrow> 'a list \<Rightarrow> bool" where
  "str_in xs [] = (xs = [])"
| "str_in xs (y # ys) = (starts_with xs (y # ys) \<or> str_in xs ys)"

section \<open>PAM site detection (\<^verbatim>\<open>find_pam_sites\<close>)\<close>

text \<open>
  The three patterns of the source are a lookahead \<^verbatim>\<open>(?=...)\<close> around a sequence of
  one-character items: a dot, a literal or a bracketed class.
\<close>

datatype atom = Dot | Lit char | Cls "char list"

fun atom_matches :: "atom \<Rightarrow> char \<Rightarrow> bool" where
  "atom_matches Dot c = (c \<noteq> CHR 0x0A)"
| "atom_matches (Lit a) c = (c = a)"
| "atom_matches (Cls as) c = (c \<in> set as)"

fun lookahead :: "atom list \<Rightarrow> string \<Rightarrow> bool" where
  "lookahead [] s = True"
| "lookahead (a # as) [] = False"
| "lookahead (a # as) (c # s) = (atom_matches a c \<and> lookahead as s)"

text \<open>
  \<^verbatim>\<open>[m.start() for m in re.finditer(pattern, sequence)]\<close> for a pattern that is one
  lookahead: the match is empty, so the scan tries every position from 0 to the length of
  the string and reports each one where the lookahead succeeds.
\<close>

definition finditer_starts :: "atom list \<Rightarrow> string \<Rightarrow> nat list" where
  "finditer_starts pattern s = filter (\<lambda>i. lookahead pattern (drop i s)) [0..<Suc (length s)]"

definition pam_patterns :: "(string \<times> atom list) list" where
  "pam_patterns =
     [(''SpCas9 (NGG)'', [Dot, Lit CHR ''G'', Lit CHR ''G'']),
      (''SaCas9 (NNGRRT)'', [Dot, Dot, Cls ''GA'', Cls ''AG'', Cls ''AG'', Lit CHR ''T'']),
      (''Cas12a (TTTV)'', [Lit CHR ''T'', Lit CHR ''T'', Lit CHR ''T'', Cls ''ACG''])]"

text \<open>
  An unknown \<^verbatim>\<open>pam_type\<close> raises \<^verbatim>\<open>KeyError\<close> at the dictionary lookup. The
  \<^verbatim>\<open>st.info\<close> message shown when no Cas12a site is found does not change the result
  and is left out.
\<close>

definition find_pam_sites :: "string \<Rightarrow> string \<Rightarrow> py_error + nat list" where
  "find_pam_sites sequence pam_type =
     (let sequence' = clean sequence in
      case map_of pam_patterns pam_type of
        None \<Rightarrow> Inl KeyError
      | Some pattern \<Rightarrow> Inr (finditer_starts pattern sequence'))"

section \<open>Guide extraction (\<^verbatim>\<open>design_grnas\<close>)\<close>

text \<open>
  Modelled from the spec: \<^verbatim>\<open>gc_fraction\<close> is imported from Biopython
  (\<^verbatim>\<open>Bio.SeqUtils\<close>) and is not part of the repository. The spec gives it as
  (count(G) + count(C)) / length(guide); the library returns 0 for the empty string, which
  is written out here.
\<close>

definition gc_fraction :: "string \<Rightarrow> rat" where
  "gc_fraction s =
     (if length s = 0 then 0
      else of_nat (count_list s CHR ''G'' + count_list s CHR ''C'') / of_nat (length s))"

text \<open>
  The dictionary built for each guide. The keys \<^verbatim>\<open>sequence\<close>, \<^verbatim>\<open>pam\<close>,
  \<^verbatim>\<open>position\<close> and \<^verbatim>\<open>gc_content\<close> are set by \<^verbatim>\<open>design_grnas\<close>;
  \<^verbatim>\<open>off_target_score\<close> is absent (\<open>None\<close>) until \<^verbatim>\<open>check_off_targets\<close> stores it.
  The fields carry the prefix \<open>g_\<close>.
\<close>

record grna =
  g_sequence :: string
  g_pam :: string
  g_position :: int
  g_gc_content :: rat
  g_off_target_score :: "rat option"

fun design_grnas :: "string \<Rightarrow> int list \<Rightarrow> rat \<Rightarrow> rat \<Rightarrow> grna list" where
  "design_grnas s [] gc_min gc_max = []"
| "design_grnas s (site # pam_sites) gc_min gc_max =
     (if site \<ge> 20 then
        (let grna_seq = slice s (site - 20) site;
             gc_content = gc_fraction grna_seq
         in if gc_min \<le> gc_content \<and> gc_content \<le> gc_max
            then \<lparr>g_sequence = grna_seq, g_pam = slice s site (site + 3),
                  g_position = site - 20, g_gc_content = gc_content,
                  g_off_target_score = None\<rparr> # design_grnas s pam_sites gc_min gc_max
            else design_grnas s pam_sites gc_min gc_max)
      else design_grnas s pam_sites gc_min gc_max)"

section \<open>Off-target estimation (\<^verbatim>\<open>check_off_targets\<close>)\<close>

text \<open>\<^verbatim>\<open>sum(a != b for a, b in zip(sequence, window))\<close>; \<^verbatim>\<open>zip\<close> stops at the shorter string.\<close>

definition mismatches :: "string \<Rightarrow> string \<Rightarrow> nat" where
  "mismatches a b = length (filter (\<lambda>(x, y). x \<noteq> y) (zip a b))"

text \<open>The body of the window loop at start offset \<open>i\<close>, acting on the running sum.\<close>

definition scan_window :: "string \<Rightarrow> string \<Rightarrow> nat \<Rightarrow> rat \<Rightarrow> rat" where
  "scan_window sequence target_sequence i off_target_score =
     (let window = slice target_sequence (int i) (int i + int (length sequence));
          m = mismatches sequence window
      in if m \<le> 4 then off_target_score + 1 / 2 ^ m else off_target_score)"

text \<open>
  \<^verbatim>\<open>for i in range(len(target_sequence)-len(sequence))\<close>: the range is empty when the
  difference is zero or negative, as the difference of naturals is.
\<close>

definition scan_windows :: "string \<Rightarrow> string \<Rightarrow> rat" where
  "scan_windows sequence target_sequence =
     fold (scan_window sequence target_sequence)
       [0..<length target_sequence - length sequence] 0"

text \<open>
  \<^verbatim>\<open>round(x, 1)\<close>. The running sum is a multiple of 1/16 and the normalised score a
  multiple of 5/4, both exact as floats, and Python rounds the exact value to the nearest
  tenth, a tie going to the even digit (\<^verbatim>\<open>round(1.25, 1)\<close> is 1.2).
\<close>

definition round_half_even :: "rat \<Rightarrow> int" where
  "round_half_even x =
     (let f = \<lfloor>x\<rfloor>; d = x - of_int f
      in if d < 1/2 then f else if 1/2 < d then f + 1 else if even f then f else f + 1)"

definition round1 :: "rat \<Rightarrow> rat" where
  "round1 x = of_int (round_half_even (x * 10)) / 10"

definition off_target_score_of :: "string \<Rightarrow> string \<Rightarrow> rat" where
  "off_target_score_of sequence target_sequence =
     (let off_target_score = scan_windows sequence target_sequence;
          normalized_score = min 100 (off_target_score * 20)
      in round1 normalized_score)"

definition check_off_targets :: "grna list \<Rightarrow> string \<Rightarrow> grna list" where
  "check_off_targets grnas target_sequence =
     map (\<lambda>grna. grna\<lparr>g_off_target_score :=
            Some (off_target_score_of (g_sequence grna) target_sequence)\<rparr>) grnas"

text \<open>
  The score before rounding, as the specification words it: the Hamming distance counts
  the positions at which guide and window differ, the window at offset \<open>i\<close> is the block
  of guide length starting there, the sum runs over the offsets 0 to n - L - 1 whose window
  has at most 4 mismatches, and the sum is scaled by 20 and clamped at 100.
\<close>

definition hamming :: "string \<Rightarrow> string \<Rightarrow> nat" where
  "hamming a b = card {k. k < length a \<and> a ! k \<noteq> b ! k}"

definition window_at :: "string \<Rightarrow> nat \<Rightarrow> nat \<Rightarrow> string" where
  "window_at t L i = take L (drop i t)"

definition spec_off_target_sum :: "string \<Rightarrow> string \<Rightarrow> rat" where
  "spec_off_target_sum g t =
     (\<Sum>i \<in> {i \<in> {0..<length t - length g}. hamming g (window_at t (length g) i) \<le> 4}.
        1 / 2 ^ hamming g (window_at t (length g) i))"

definition spec_normalized_score :: "string \<Rightarrow> string \<Rightarrow> rat" where
  "spec_normalized_score g t = min 100 (20 * spec_off_target_sum g t)"

section \<open>Efficiency scoring (\<^verbatim>\<open>CRISPRScoring\<close>)\<close>

definition gc_score :: "string \<Rightarrow> rat" where
  "gc_score sequence =
     (let gc = gc_fraction sequence
      in if 45/100 \<le> gc \<and> gc \<le> 65/100 then 1
         else if gc < 45/100 then gc / (45/100)
         else (1 - gc) / (35/100))"

definition complement :: "(char \<times> char) list" where
  "complement = [(CHR ''A'', CHR ''T''), (CHR ''T'', CHR ''A''),
                 (CHR ''G'', CHR ''C''), (CHR ''C'', CHR ''G'')]"

text \<open>\<^verbatim>\<open>complement.get(base, base)\<close>\<close>

definition complement_get :: "char \<Rightarrow> char" where
  "complement_get base = (case map_of complement base of Some b \<Rightarrow> b | None \<Rightarrow> base)"

definition reverse_complement :: "string \<Rightarrow> string" where
  "reverse_complement sequence = map complement_get (rev sequence)"

text \<open>
  The two nested loops: \<open>i\<close> runs over \<^verbatim>\<open>range(seq_len - 4)\<close>, \<open>j\<close> over
  \<^verbatim>\<open>range(i + 5, seq_len)\<close>, and the region is \<^verbatim>\<open>sequence[i:j]\<close>.
\<close>

definition scan_region :: "string \<Rightarrow> string \<Rightarrow> nat \<Rightarrow> nat \<Rightarrow> nat \<Rightarrow> nat" where
  "scan_region sequence rev_comp i j max_complementary =
     (let region = slice sequence (int i) (int j)
      in if str_in region rev_comp then max max_complementary (length region)
         else max_complementary)"

definition max_complementary_of :: "string \<Rightarrow> nat" where
  "max_complementary_of sequence =
     (let rev_comp = reverse_complement sequence;
          seq_len = length sequence
      in fold (\<lambda>i. fold (scan_region sequence rev_comp i) [i + 5..<seq_len])
           [0..<seq_len - 4] 0)"

definition self_complementarity_score :: "string \<Rightarrow> rat" where
  "self_complementarity_score sequence =
     (let max_complementary = max_complementary_of sequence
      in if max_complementary < 5 then 1
         else if max_complementary \<ge> 12 then 0
         else 1 - ((of_nat max_complementary - 5) / 7))"

text \<open>
  The self-complementarity score as the specification words it: the maximum is taken over
  every substring of length at least 5, so the end index \<open>j\<close> runs up to the length of the
  guide.
\<close>

definition spec_max_complementary :: "string \<Rightarrow> nat" where
  "spec_max_complementary g =
     Max (insert 0 {j - i | i j. i + 5 \<le> j \<and> j \<le> length g
                              \<and> str_in (take (j - i) (drop i g)) (reverse_complement g)})"

definition spec_self_complementarity_score :: "string \<Rightarrow> rat" where
  "spec_self_complementarity_score g =
     (let m = spec_max_complementary g
      in if m < 5 then 1 else if 12 \<le> m then 0 else 1 - ((of_nat m - 5) / 7))"

text \<open>\<^verbatim>\<open>get_homopolymer_run\<close>: the loop state is the pair (max_run, current_run).\<close>

definition run_step :: "string \<Rightarrow> char \<Rightarrow> nat \<Rightarrow> nat \<times> nat \<Rightarrow> nat \<times> nat" where
  "run_step seq base i st =
     (case st of (max_run, current_run) \<Rightarrow>
        if seq ! i = seq ! (i - 1) \<and> seq ! (i - 1) = base
        then (max max_run (current_run + 1), current_run + 1)
        else (max_run, 1))"

definition get_homopolymer_run :: "string \<Rightarrow> char \<Rightarrow> nat" where
  "get_homopolymer_run seq base = fst (fold (run_step seq base) [1..<length seq] (1, 1))"

definition homopolymer_score :: "string \<Rightarrow> rat" where
  "homopolymer_score sequence =
     (let t_run = get_homopolymer_run sequence CHR ''T'';
          a_run = get_homopolymer_run sequence CHR ''A'';
          g_run = get_homopolymer_run sequence CHR ''G'';
          c_run = get_homopolymer_run sequence CHR ''C'';
          t_score = (if t_run \<le> 2 then 1 else if t_run \<ge> 4 then 0
                     else 1 - ((of_nat t_run - 2) / 2));
          a_score = (if a_run \<le> 3 then 1 else if a_run \<ge> 5 then 0
                     else 1 - ((of_nat a_run - 3) / 2));
          g_score = (if g_run \<le> 3 then 1 else if g_run \<ge> 5 then 0
                     else 1 - ((of_nat g_run - 3) / 2));
          c_score = (if c_run \<le> 3 then 1 else if c_run \<ge> 5 then 0
                     else 1 - ((of_nat c_run - 3) / 2))
      in 4/10 * t_score + 2/10 * a_score + 2/10 * g_score + 2/10 * c_score)"

definition preferences :: "(nat \<times> (char \<times> rat) list) list" where
  "preferences =
     [(1, [(CHR ''G'', 9/10), (CHR ''A'', 6/10), (CHR ''C'', 4/10), (CHR ''T'', 2/10)]),
      (2, [(CHR ''G'', 3/10), (CHR ''A'', 8/10), (CHR ''C'', 4/10), (CHR ''T'', 3/10)]),
      (3, [(CHR ''G'', 6/10), (CHR ''A'', 6/10), (CHR ''C'', 4/10), (CHR ''T'', 3/10)]),
      (4, [(CHR ''G'', 5/10), (CHR ''A'', 5/10), (CHR ''C'', 5/10), (CHR ''T'', 4/10)]),
      (16, [(CHR ''G'', 7/10), (CHR ''A'', 5/10), (CHR ''C'', 3/10), (CHR ''T'', 3/10)]),
      (17, [(CHR ''G'', 8/10), (CHR ''A'', 4/10), (CHR ''C'', 3/10), (CHR ''T'', 2/10)]),
      (18, [(CHR ''G'', 7/10), (CHR ''A'', 4/10), (CHR ''C'', 4/10), (CHR ''T'', 3/10)]),
      (19, [(CHR ''G'', 6/10), (CHR ''A'', 5/10), (CHR ''C'', 4/10), (CHR ''T'', 3/10)]),
      (20, [(CHR ''G'', 8/10), (CHR ''A'', 4/10), (CHR ''C'', 3/10), (CHR ''T'', 2/10)])]"

text \<open>
  The loop over \<^verbatim>\<open>preferences.items()\<close>, in insertion order, with the state
  (score, count); \<^verbatim>\<open>weights.get(base, 0.3)\<close> is the lookup with default.
\<close>

definition position_step :: "string \<Rightarrow> nat \<times> (char \<times> rat) list \<Rightarrow> rat \<times> nat \<Rightarrow> rat \<times> nat" where
  "position_step sequence entry st =
     (case entry of (pos, weights) \<Rightarrow> case st of (score, count) \<Rightarrow>
        if pos \<le> length sequence
        then (let base = sequence ! (pos - 1)
              in (score + (case map_of weights base of Some w \<Rightarrow> w | None \<Rightarrow> 3/10),
                  count + 1))
        else (score, count))"

definition position_score :: "string \<Rightarrow> rat" where
  "position_score sequence =
     (case fold (position_step sequence) preferences (0, 0) of
        (score, count) \<Rightarrow> if count > 0 then score / of_nat count else 1/2)"

definition score_weights :: "(string \<times> rat) list" where
  "score_weights =
     [(''gc_score'', 25/100), (''self_complementarity'', 25/100),
      (''homopolymer'', 2/10), (''position'', 3/10)]"

text \<open>
  \<^verbatim>\<open>sum(scores[k] * weights[k] for k in scores)\<close>: the keys of \<^verbatim>\<open>scores\<close> in
  insertion order, each looked up in \<^verbatim>\<open>weights\<close> (a missing key raises), summed from 0.
\<close>

fun weighted_sum :: "rat \<Rightarrow> (string \<times> rat) list \<Rightarrow> (string \<times> rat) list \<Rightarrow> py_error + rat" where
  "weighted_sum acc [] weights = Inr acc"
| "weighted_sum acc ((k, v) # scores) weights =
     (case map_of weights k of
        None \<Rightarrow> Inl KeyError
      | Some w \<Rightarrow> weighted_sum (acc + v * w) scores weights)"

text \<open>The returned dictionary, as its list of items in insertion order.\<close>

definition calculate_all_scores :: "string \<Rightarrow> py_error + (string \<times> rat) list" where
  "calculate_all_scores sequence =
     (let scores = [(''gc_score'', gc_score sequence),
                    (''self_complementarity'', self_complementarity_score sequence),
                    (''homopolymer'', homopolymer_score sequence),
                    (''position'', position_score sequence)]
      in case weighted_sum 0 scores score_weights of
           Inl e \<Rightarrow> Inl e
         | Inr final_score \<Rightarrow> Inr (scores @ [(''final_score'', final_score)]))"

section \<open>Properties of PAM site detection\<close>

lemma clean_dna: "set s \<subseteq> set ''ATGC'' \<Longrightarrow> clean s = s"
proof (induction s)
  case Nil
  show ?case by (simp add: clean_def)
next
  case (Cons c s)
  then have c: "c = CHR ''A'' \<or> c = CHR ''T'' \<or> c = CHR ''G'' \<or> c = CHR ''C''"
    by auto
  from Cons have "clean s = s" by simp
  moreover from c have "clean (c # s) = c # clean s"
    by (auto simp: clean_def upper_char_def)
  ultimately show ?case by simp
qed

lemma lookahead_length: "lookahead p s \<Longrightarrow> length p \<le> length s"
  by (induction p s rule: lookahead.induct) auto

lemma lookahead_take: "lookahead p s \<Longrightarrow> lookahead p (take (length p) s)"
  by (induction p s rule: lookahead.induct) auto

lemma finditer_starts_member:
  "i \<in> set (finditer_starts p s) \<longleftrightarrow> i \<le> length s \<and> lookahead p (drop i s)"
  by (auto simp: finditer_starts_def simp del: upt_Suc)

lemma pam_patterns_cases:
  assumes "map_of pam_patterns pam_type = Some pattern"
  shows "(pam_type = ''SpCas9 (NGG)'' \<and> pattern = [Dot, Lit CHR ''G'', Lit CHR ''G''])
       \<or> (pam_type = ''SaCas9 (NNGRRT)''
            \<and> pattern = [Dot, Dot, Cls ''GA'', Cls ''AG'', Cls ''AG'', Lit CHR ''T''])
       \<or> (pam_type = ''Cas12a (TTTV)''
            \<and> pattern = [Lit CHR ''T'', Lit CHR ''T'', Lit CHR ''T'', Cls ''ACG''])"
  using assms by (simp add: pam_patterns_def split: if_splits)

lemma lookahead_Cons:
  "lookahead (a # as) xs \<longleftrightarrow> (\<exists>c cs. xs = c # cs \<and> atom_matches a c \<and> lookahead as cs)"
  by (cases xs) simp_all

text \<open>
  What the scan guarantees under the key \<^verbatim>\<open>"SaCas9 (NNGRRT)"\<close>: the 6-mer at a
  reported index lies within the sequence, its third base is G or A, its fourth and fifth
  bases are A or G and its sixth base is T.
\<close>

lemma sacas9_site_shape:
  assumes dna: "set s \<subseteq> set ''ATGC''"
    and found: "find_pam_sites s ''SaCas9 (NNGRRT)'' = Inr sites"
    and i: "i \<in> set sites"
  shows "i + 6 \<le> length s
       \<and> s ! (i + 2) \<in> {CHR ''G'', CHR ''A''}
       \<and> s ! (i + 3) \<in> {CHR ''A'', CHR ''G''}
       \<and> s ! (i + 4) \<in> {CHR ''A'', CHR ''G''}
       \<and> s ! (i + 5) = CHR ''T''"
proof -
  let ?p = "[Dot, Dot, Cls ''GA'', Cls ''AG'', Cls ''AG'', Lit CHR ''T'']"
  from dna have "clean s = s" by (rule clean_dna)
  with found have "sites = finditer_starts ?p s"
    by (simp add: find_pam_sites_def pam_patterns_def)
  with i have le: "i \<le> length s" and la: "lookahead ?p (drop i s)"
    by (simp_all add: finditer_starts_member)
  from la obtain c0 c1 c2 c3 c4 c5 rest where
    d: "drop i s = c0 # c1 # c2 # c3 # c4 # c5 # rest" and
    m: "c2 \<in> set ''GA''" "c3 \<in> set ''AG''" "c4 \<in> set ''AG''" "c5 = CHR ''T''"
    by (auto simp: lookahead_Cons)
  from lookahead_length [OF la] le have len: "i + 6 \<le> length s" by simp
  have nth: "\<And>k. s ! (i + k) = drop i s ! k" using le by simp
  from m show ?thesis
    unfolding nth d using len by simp
qed

text \<open>
  C1, evaluated at the input \<^verbatim>\<open>"AAAAAT"\<close>: under the key \<^verbatim>\<open>"SaCas9 (NNGRRT)"\<close> the
  scan reports index 0, and the base at offset 2 from that index is A, not G. The third
  item of the source's pattern is the class \<^verbatim>\<open>[GA]\<close>.
\<close>

theorem C1_sacas9_third_base_A:
  "find_pam_sites ''AAAAAT'' ''SaCas9 (NNGRRT)'' = Inr [0] \<and> ''AAAAAT'' ! (0 + 2) = CHR ''A''"
  by (simp add: find_pam_sites_def pam_patterns_def finditer_starts_def clean_def upper_char_def)

section \<open>Properties of guide extraction\<close>

lemma slice_nat: "slice xs (int i) (int i + int k) = take k (drop i xs)"
proof (cases "i \<le> length xs")
  case True
  then have "nat (min (int i + int k) (int (length xs)) - int i) = min k (length xs - i)"
    by (simp add: min_def) linarith
  with True show ?thesis by (simp add: slice_def min_def)
next
  case False
  then show ?thesis by (simp add: slice_def min_def)
qed

lemma slice_guide_length:
  assumes "20 \<le> site" and "site \<le> int (length xs)"
  shows "length (slice xs (site - 20) site) = 20"
proof -
  from assms have "nat (site - 20) + 20 \<le> length xs" by linarith
  with assms show ?thesis by (simp add: slice_def min_def) arith
qed

lemma count_two_le_length: "a \<noteq> b \<Longrightarrow> count_list xs a + count_list xs b \<le> length xs"
  by (induction xs) auto

lemma gc_fraction_range: "0 \<le> gc_fraction s \<and> gc_fraction s \<le> 1"
proof (cases "length s = 0")
  case True
  then show ?thesis by (simp add: gc_fraction_def)
next
  case False
  have "count_list s CHR ''G'' + count_list s CHR ''C'' \<le> length s"
    by (rule count_two_le_length) simp
  then have "(of_nat (count_list s CHR ''G'' + count_list s CHR ''C'') :: rat) \<le> of_nat (length s)"
    by (simp only: of_nat_le_iff)
  with False show ?thesis by (simp add: gc_fraction_def divide_le_eq_1)
qed

lemma design_grnas_filter:
  "design_grnas s (filter (\<lambda>site. 20 \<le> site) sites) lo hi = design_grnas s sites lo hi"
  by (induction sites) (simp_all add: Let_def)

lemma design_grnas_member:
  "c \<in> set (design_grnas s sites lo hi) \<Longrightarrow>
   \<exists>site \<in> set sites. 20 \<le> site \<and>
     c = \<lparr>g_sequence = slice s (site - 20) site, g_pam = slice s site (site + 3),
          g_position = site - 20, g_gc_content = gc_fraction (slice s (site - 20) site),
          g_off_target_score = None\<rparr> \<and>
     lo \<le> gc_fraction (slice s (site - 20) site) \<and> gc_fraction (slice s (site - 20) site) \<le> hi"
proof (induction sites)
  case Nil
  then show ?case by simp
next
  case (Cons site sites)
  then show ?case by (auto simp: Let_def split: if_splits)
qed

lemma design_grnas_complete:
  assumes "site \<in> set sites" and "20 \<le> site"
    and "lo \<le> gc_fraction (slice s (site - 20) site)"
    and "gc_fraction (slice s (site - 20) site) \<le> hi"
  shows "\<lparr>g_sequence = slice s (site - 20) site, g_pam = slice s site (site + 3),
          g_position = site - 20, g_gc_content = gc_fraction (slice s (site - 20) site),
          g_off_target_score = None\<rparr> \<in> set (design_grnas s sites lo hi)"
  using assms by (induction sites) (auto simp: Let_def)

text \<open>
  C4, as stated, at a sequence with one SaCas9 site: the scan under the key
  \<^verbatim>\<open>"SaCas9 (NNGRRT)"\<close> reports index 20, where the 6-mer AAGAAT starts, and the guide
  built for that site carries the 3-mer AAG as its \<^verbatim>\<open>pam\<close>, not the 6-mer.
\<close>

theorem C4_sacas9_pam_is_3mer:
  "find_pam_sites ''ATCGATCGATCGATCGATCGAAGAAT'' ''SaCas9 (NNGRRT)'' = Inr [20]
   \<and> map g_pam (design_grnas ''ATCGATCGATCGATCGATCGAAGAAT'' [20] 0 1) = [''AAG'']
   \<and> slice ''ATCGATCGATCGATCGATCGAAGAAT'' 20 (20 + 6) = ''AAGAAT''"
  by (simp add: find_pam_sites_def pam_patterns_def finditer_starts_def clean_def upper_char_def
      slice_def gc_fraction_def)

text \<open>
  C4, amended: \<^verbatim>\<open>design_grnas\<close> takes no nuclease profile. For a sequence over
  \{A,T,G,C\} and the sites reported by \<^verbatim>\<open>find_pam_sites\<close> under any of the three
  profiles, each returned guide's \<^verbatim>\<open>pam\<close> is the first three characters of the motif
  matched at its site (the site is the guide's position plus 20). The matched motif has
  the length of the profile's pattern, so for SpCas9 the \<^verbatim>\<open>pam\<close> is the whole matched
  3-mer, and for SaCas9 and Cas12a it is a proper prefix of the matched 6-mer or 4-mer.
\<close>

theorem C4_pam_is_first_three:
  assumes dna: "set s \<subseteq> set ''ATGC''"
    and pat: "map_of pam_patterns pam_type = Some pattern"
    and found: "find_pam_sites s pam_type = Inr sites"
    and c: "c \<in> set (design_grnas s (map int sites) gc_min gc_max)"
  shows "g_pam c = take 3 (slice s (g_position c + 20) (g_position c + 20 + int (length pattern)))
       \<and> length (slice s (g_position c + 20) (g_position c + 20 + int (length pattern)))
           = length pattern
       \<and> lookahead pattern (slice s (g_position c + 20) (g_position c + 20 + int (length pattern)))
       \<and> (pam_type = ''SpCas9 (NGG)'' \<longrightarrow>
            g_pam c = slice s (g_position c + 20) (g_position c + 20 + int (length pattern)))"
proof -
  from dna have "clean s = s" by (rule clean_dna)
  with pat found have sites: "sites = finditer_starts pattern s"
    by (simp add: find_pam_sites_def)
  from design_grnas_member [OF c] obtain site where
    site: "site \<in> set (map int sites)" and
    c_eq: "c = \<lparr>g_sequence = slice s (site - 20) site, g_pam = slice s site (site + 3),
          g_position = site - 20, g_gc_content = gc_fraction (slice s (site - 20) site),
          g_off_target_score = None\<rparr>"
    by blast
  from site obtain i where i: "i \<in> set sites" and site_i: "site = int i" by auto
  from i sites have la: "lookahead pattern (drop i s)"
    by (simp add: finditer_starts_member)
  have pos: "g_position c + 20 = int i" using c_eq site_i by simp
  have motif: "slice s (int i) (int i + int (length pattern)) = take (length pattern) (drop i s)"
    by (rule slice_nat)
  have "slice s (int i) (int i + int 3) = take 3 (drop i s)" by (rule slice_nat)
  then have pam: "g_pam c = take 3 (drop i s)" using c_eq site_i by simp
  from pam_patterns_cases [OF pat] have len3: "3 \<le> length pattern" by auto
  then have "take 3 (take (length pattern) (drop i s)) = take 3 (drop i s)"
    by (simp add: min_def)
  with pam motif pos have first: "g_pam c = take 3 (slice s (g_position c + 20)
      (g_position c + 20 + int (length pattern)))"
    by simp
  from lookahead_length [OF la] have second: "length (slice s (g_position c + 20)
      (g_position c + 20 + int (length pattern))) = length pattern"
    using motif pos by simp
  from lookahead_take [OF la] have third: "lookahead pattern (slice s (g_position c + 20)
      (g_position c + 20 + int (length pattern)))"
    using motif pos by simp
  have fourth: "pam_type = ''SpCas9 (NGG)'' \<longrightarrow>
      g_pam c = slice s (g_position c + 20) (g_position c + 20 + int (length pattern))"
  proof
    assume "pam_type = ''SpCas9 (NGG)''"
    with pam_patterns_cases [OF pat] have "length pattern = 3" by auto
    with first second show "g_pam c = slice s (g_position c + 20)
        (g_position c + 20 + int (length pattern))"
      by simp
  qed
  from first second third fourth show ?thesis by blast
qed

theorem C4_pam_is_first_three_witness:
  "set ''ATCGATCGATCGATCGATCGAGGATCG'' \<subseteq> set ''ATGC''
   \<and> map_of pam_patterns ''SpCas9 (NGG)'' = Some [Dot, Lit CHR ''G'', Lit CHR ''G'']
   \<and> find_pam_sites ''ATCGATCGATCGATCGATCGAGGATCG'' ''SpCas9 (NGG)'' = Inr [20]
   \<and> \<lparr>g_sequence = ''ATCGATCGATCGATCGATCG'', g_pam = ''AGG'', g_position = 0,
       g_gc_content = 1/2, g_off_target_score = None\<rparr>
       \<in> set (design_grnas ''ATCGATCGATCGATCGATCGAGGATCG'' (map int [20]) (2/5) (3/5))
   \<and> ''AGG'' = take 3 (slice ''ATCGATCGATCGATCGATCGAGGATCG'' (0 + 20) (0 + 20 + 3))
   \<and> lookahead [Dot, Lit CHR ''G'', Lit CHR ''G'']
        (slice ''ATCGATCGATCGATCGATCGAGGATCG'' (0 + 20) (0 + 20 + 3))
   \<and> ''AGG'' = slice ''ATCGATCGATCGATCGATCGAGGATCG'' (0 + 20) (0 + 20 + 3)"
proof -
  have h1: "set ''ATCGATCGATCGATCGATCGAGGATCG'' \<subseteq> set ''ATGC''" by simp
  have h2: "map_of pam_patterns ''SpCas9 (NGG)'' = Some [Dot, Lit CHR ''G'', Lit CHR ''G'']"
    by (simp add: pam_patterns_def)
  have h3: "find_pam_sites ''ATCGATCGATCGATCGATCGAGGATCG'' ''SpCas9 (NGG)'' = Inr [20]"
    by (simp add: find_pam_sites_def pam_patterns_def finditer_starts_def clean_def
        upper_char_def)
  have h4: "\<lparr>g_sequence = ''ATCGATCGATCGATCGATCG'', g_pam = ''AGG'', g_position = 0,
       g_gc_content = 1/2, g_off_target_score = None\<rparr>
       \<in> set (design_grnas ''ATCGATCGATCGATCGATCGAGGATCG'' (map int [20]) (2/5) (3/5))"
    by (simp add: slice_def gc_fraction_def)
  from C4_pam_is_first_three [OF h1 h2 h3 h4] h1 h2 h3 h4 show ?thesis by simp
qed

text \<open>
  C5, as stated, at a 25-base sequence and the site list [30]: the site passes the only
  check there is (\<^verbatim>\<open>site >= 20\<close>), the slice is cut at the end of the sequence, and the
  returned guide has 15 bases.
\<close>

theorem C5_site_beyond_end_truncated:
  "map (length \<circ> g_sequence) (design_grnas ''ATCGATCGATCGATCGATCGATCGA'' [30] 0 1) = [15]
   \<and> int (length ''ATCGATCGATCGATCGATCGATCGA'') < 30"
  by (simp add: slice_def gc_fraction_def)

text \<open>
  C5, amended: when no listed site lies beyond the end of the sequence (as holds for the
  sites \<^verbatim>\<open>find_pam_sites\<close> reports), \<^verbatim>\<open>design_grnas\<close> produces no candidate for a
  site below 20, every returned candidate comes from a listed site whose 20-base span lies
  within the sequence, and its guide has exactly 20 bases.
\<close>

theorem C5_guide_span_in_bounds:
  assumes "\<forall>site \<in> set sites. site \<le> int (length s)"
  shows "design_grnas s sites gc_min gc_max
           = design_grnas s (filter (\<lambda>site. 20 \<le> site) sites) gc_min gc_max
       \<and> (\<forall>c \<in> set (design_grnas s sites gc_min gc_max).
            g_position c + 20 \<in> set sites
          \<and> 0 \<le> g_position c \<and> g_position c + 20 \<le> int (length s)
          \<and> g_sequence c = slice s (g_position c) (g_position c + 20)
          \<and> length (g_sequence c) = 20)"
proof (intro conjI ballI)
  show "design_grnas s sites gc_min gc_max
          = design_grnas s (filter (\<lambda>site. 20 \<le> site) sites) gc_min gc_max"
    by (simp add: design_grnas_filter)
next
  fix c
  assume "c \<in> set (design_grnas s sites gc_min gc_max)"
  from design_grnas_member [OF this] obtain site where
    site: "site \<in> set sites" "20 \<le> site" and
    c_eq: "c = \<lparr>g_sequence = slice s (site - 20) site, g_pam = slice s site (site + 3),
          g_position = site - 20, g_gc_content = gc_fraction (slice s (site - 20) site),
          g_off_target_score = None\<rparr>"
    by blast
  from site assms have le: "site \<le> int (length s)" by blast
  show "g_position c + 20 \<in> set sites" using c_eq site by simp
  show "0 \<le> g_position c" using c_eq site by simp
  show "g_position c + 20 \<le> int (length s)" using c_eq le by simp
  show "g_sequence c = slice s (g_position c) (g_position c + 20)" using c_eq by simp
  show "length (g_sequence c) = 20"
    using c_eq slice_guide_length [OF site(2) le] by simp
qed

theorem C5_guide_span_in_bounds_witness:
  "(5 :: int) \<le> int (length ''ATCGATCGATCGATCGATCGAGGATCG'')
   \<and> (20 :: int) \<le> int (length ''ATCGATCGATCGATCGATCGAGGATCG'')
   \<and> map g_sequence (design_grnas ''ATCGATCGATCGATCGATCGAGGATCG'' [5, 20] 0 1)
       = [''ATCGATCGATCGATCGATCG'']
   \<and> map (length \<circ> g_sequence) (design_grnas ''ATCGATCGATCGATCGATCGAGGATCG'' [5, 20] 0 1)
       = [20]"
proof -
  have h: "\<forall>site \<in> set [5, 20]. site \<le> int (length ''ATCGATCGATCGATCGATCGAGGATCG'')"
    by simp
  have run: "map g_sequence (design_grnas ''ATCGATCGATCGATCGATCGAGGATCG'' [5, 20] 0 1)
       = [''ATCGATCGATCGATCGATCG'']"
    by (simp add: slice_def gc_fraction_def)
  from C5_guide_span_in_bounds [OF h, of 0 1] run show ?thesis
    by (simp add: slice_def gc_fraction_def)
qed

text \<open>
  C6: no returned candidate has a guide GC fraction outside [gc_min, gc_max] (both ends
  included, and the stored \<^verbatim>\<open>gc_content\<close> is that fraction); with gc_min above
  gc_max nothing is returned; and with the bounds 0 and 1 every listed site whose 20-base
  span lies within the sequence yields its candidate.
\<close>

theorem C6_gc_filter:
  "(\<forall>c \<in> set (design_grnas s sites gc_min gc_max).
      gc_min \<le> gc_fraction (g_sequence c) \<and> gc_fraction (g_sequence c) \<le> gc_max
    \<and> g_gc_content c = gc_fraction (g_sequence c))
   \<and> (gc_max < gc_min \<longrightarrow> design_grnas s sites gc_min gc_max = [])
   \<and> (\<forall>site \<in> set sites. 20 \<le> site \<and> site \<le> int (length s) \<longrightarrow>
        \<lparr>g_sequence = slice s (site - 20) site, g_pam = slice s site (site + 3),
         g_position = site - 20, g_gc_content = gc_fraction (slice s (site - 20) site),
         g_off_target_score = None\<rparr> \<in> set (design_grnas s sites 0 1))"
proof (intro conjI ballI impI)
  fix c
  assume "c \<in> set (design_grnas s sites gc_min gc_max)"
  from design_grnas_member [OF this] obtain site where
    c_eq: "c = \<lparr>g_sequence = slice s (site - 20) site, g_pam = slice s site (site + 3),
          g_position = site - 20, g_gc_content = gc_fraction (slice s (site - 20) site),
          g_off_target_score = None\<rparr>" and
    gc: "gc_min \<le> gc_fraction (slice s (site - 20) site)"
        "gc_fraction (slice s (site - 20) site) \<le> gc_max"
    by blast
  show "gc_min \<le> gc_fraction (g_sequence c)" using c_eq gc by simp
  show "gc_fraction (g_sequence c) \<le> gc_max" using c_eq gc by simp
  show "g_gc_content c = gc_fraction (g_sequence c)" using c_eq by simp
next
  assume inverted: "gc_max < gc_min"
  show "design_grnas s sites gc_min gc_max = []"
  proof (rule ccontr)
    assume "design_grnas s sites gc_min gc_max \<noteq> []"
    then obtain c where "c \<in> set (design_grnas s sites gc_min gc_max)"
      by (cases "design_grnas s sites gc_min gc_max") auto
    from design_grnas_member [OF this] obtain site where
      "gc_min \<le> gc_fraction (slice s (site - 20) site)"
      "gc_fraction (slice s (site - 20) site) \<le> gc_max"
      by blast
    with inverted show False by simp
  qed
next
  fix site
  assume "site \<in> set sites" and "20 \<le> site \<and> site \<le> int (length s)"
  then show "\<lparr>g_sequence = slice s (site - 20) site, g_pam = slice s site (site + 3),
         g_position = site - 20, g_gc_content = gc_fraction (slice s (site - 20) site),
         g_off_target_score = None\<rparr> \<in> set (design_grnas s sites 0 1)"
    using gc_fraction_range [of "slice s (site - 20) site"]
    by (intro design_grnas_complete) simp_all
qed

theorem C6_gc_filter_witness:
  "design_grnas ''ATCGATCGATCGATCGATCGAGGATCG'' [20] (2/5) (3/5)
     = [\<lparr>g_sequence = ''ATCGATCGATCGATCGATCG'', g_pam = ''AGG'', g_position = 0,
         g_gc_content = 1/2, g_off_target_score = None\<rparr>]
   \<and> (2/5 :: rat) \<le> gc_fraction ''ATCGATCGATCGATCGATCG''
   \<and> gc_fraction ''ATCGATCGATCGATCGATCG'' \<le> 3/5
   \<and> ((2/5 :: rat) < 3/5 \<and> design_grnas ''ATCGATCGATCGATCGATCGAGGATCG'' [20] (3/5) (2/5) = [])
   \<and> (20 \<in> set [20 :: int] \<and> (20 :: int) \<le> 20
      \<and> 20 \<le> int (length ''ATCGATCGATCGATCGATCGAGGATCG'')
      \<and> \<lparr>g_sequence = ''ATCGATCGATCGATCGATCG'', g_pam = ''AGG'', g_position = 0,
          g_gc_content = 1/2, g_off_target_score = None\<rparr>
          \<in> set (design_grnas ''ATCGATCGATCGATCGATCGAGGATCG'' [20] 0 1))"
  using C6_gc_filter [of "''ATCGATCGATCGATCGATCGAGGATCG''" "[20]" "2/5" "3/5"]
    C6_gc_filter [of "''ATCGATCGATCGATCGATCGAGGATCG''" "[20]" "3/5" "2/5"]
  by (simp add: slice_def gc_fraction_def)

section \<open>Properties of the off-target estimate\<close>

lemma mismatches_hamming: "length a = length b \<Longrightarrow> mismatches a b = hamming a b"
proof -
  assume len: "length a = length b"
  have "{i. i < length (zip a b) \<and> (case zip a b ! i of (x, y) \<Rightarrow> x \<noteq> y)}
      = {k. k < length a \<and> a ! k \<noteq> b ! k}"
    using len by auto
  then show ?thesis
    by (simp add: mismatches_def hamming_def length_filter_conv_card)
qed

lemma window_at_length: "i + L \<le> length t \<Longrightarrow> length (window_at t L i) = L"
  by (simp add: window_at_def)

lemma scan_window_spec:
  assumes "i + length g \<le> length t"
  shows "scan_window g t i acc =
         acc + (if hamming g (window_at t (length g) i) \<le> 4
                then 1 / 2 ^ hamming g (window_at t (length g) i) else 0)"
proof -
  have "slice t (int i) (int i + int (length g)) = window_at t (length g) i"
    by (simp add: slice_nat window_at_def)
  moreover have "mismatches g (window_at t (length g) i) = hamming g (window_at t (length g) i)"
    using window_at_length [OF assms] by (intro mismatches_hamming) simp
  ultimately show ?thesis by (simp add: scan_window_def)
qed

lemma fold_scan_window:
  assumes "\<forall>i \<in> set xs. i + length g \<le> length t"
  shows "fold (scan_window g t) xs acc =
         acc + sum_list (map (\<lambda>i. if hamming g (window_at t (length g) i) \<le> 4
                                  then 1 / 2 ^ hamming g (window_at t (length g) i) else 0) xs)"
  using assms
proof (induction xs arbitrary: acc)
  case Nil
  show ?case by simp
next
  case (Cons i xs)
  then show ?case by (simp add: scan_window_spec add.assoc)
qed

lemma scan_windows_sum:
  "scan_windows g t =
     (\<Sum>i \<in> {i \<in> {0..<length t - length g}. hamming g (window_at t (length g) i) \<le> 4}.
        1 / 2 ^ hamming g (window_at t (length g) i))"
proof -
  have "\<forall>i \<in> set [0..<length t - length g]. i + length g \<le> length t" by auto
  from fold_scan_window [OF this, of 0]
  have "scan_windows g t =
        sum_list (map (\<lambda>i. if hamming g (window_at t (length g) i) \<le> 4
                           then 1 / 2 ^ hamming g (window_at t (length g) i) else 0)
                   [0..<length t - length g])"
    by (simp add: scan_windows_def)
  also have "\<dots> = (\<Sum>i \<in> {0..<length t - length g}.
                     if hamming g (window_at t (length g) i) \<le> 4
                     then 1 / 2 ^ hamming g (window_at t (length g) i) else 0)"
    by (simp add: interv_sum_list_conv_sum_set_nat)
  also have "\<dots> = (\<Sum>i \<in> {i \<in> {0..<length t - length g}.
                          hamming g (window_at t (length g) i) \<le> 4}.
                     1 / 2 ^ hamming g (window_at t (length g) i))"
    by (rule sum.inter_filter [symmetric]) simp
  finally show ?thesis .
qed

lemma scan_windows_nonneg: "0 \<le> scan_windows g t"
  unfolding scan_windows_sum by (rule sum_nonneg) simp

lemma round_half_even_bounds:
  assumes "of_int lo \<le> x" and "x \<le> of_int hi"
  shows "lo \<le> round_half_even x \<and> round_half_even x \<le> hi"
proof -
  have lo: "lo \<le> \<lfloor>x\<rfloor>" using assms(1) by (simp add: le_floor_iff)
  have hi: "\<lfloor>x\<rfloor> \<le> hi" using assms(2) by (simp add: floor_le_iff)
  have "x - of_int \<lfloor>x\<rfloor> \<noteq> 0 \<Longrightarrow> \<lfloor>x\<rfloor> + 1 \<le> hi"
  proof -
    assume "x - of_int \<lfloor>x\<rfloor> \<noteq> 0"
    then have "of_int \<lfloor>x\<rfloor> < x" using of_int_floor_le [of x] by linarith
    with assms(2) have "(of_int \<lfloor>x\<rfloor> :: rat) < of_int hi" by linarith
    then show ?thesis by simp
  qed
  with lo hi show ?thesis
    by (auto simp: round_half_even_def Let_def)
qed

lemma round1_range: "0 \<le> x \<Longrightarrow> x \<le> 100 \<Longrightarrow> 0 \<le> round1 x \<and> round1 x \<le> 100"
proof -
  assume "0 \<le> x" and "x \<le> 100"
  then have "of_int 0 \<le> x * 10" and "x * 10 \<le> of_int 1000" by simp_all
  from round_half_even_bounds [OF this]
  have "0 \<le> round_half_even (x * 10)" and "round_half_even (x * 10) \<le> 1000" by simp_all
  then have "(0::rat) \<le> of_int (round_half_even (x * 10))"
    and "(of_int (round_half_even (x * 10)) :: rat) \<le> of_int 1000"
    by (simp_all only: of_int_le_iff of_int_0_le_iff)
  then show ?thesis by (simp add: round1_def)
qed

lemma off_target_score_of_range: "0 \<le> off_target_score_of g t \<and> off_target_score_of g t \<le> 100"
proof -
  have "0 \<le> min 100 (scan_windows g t * 20)" and "min 100 (scan_windows g t * 20) \<le> 100"
    using scan_windows_nonneg [of g t] by simp_all
  from round1_range [OF this] show ?thesis by (simp add: off_target_score_of_def)
qed

lemma window_without_last:
  assumes "i < Suc (length t) - L"
  shows "take L (drop i (t @ [x])) = take L (drop i t)"
proof (cases "L = 0")
  case True
  then show ?thesis by simp
next
  case False
  with assms have "i + L \<le> length t" by simp
  then show ?thesis by simp
qed

lemma scan_windows_last_base: "scan_windows g (t @ [x]) = scan_windows g (t @ [y])"
proof -
  have "fold (scan_window g (t @ [x])) [0..<Suc (length t) - length g] 0
      = fold (scan_window g (t @ [y])) [0..<Suc (length t) - length g] 0"
  proof (rule fold_cong)
    fix i
    assume "i \<in> set [0..<Suc (length t) - length g]"
    then have i: "i < Suc (length t) - length g" by simp
    have "slice (t @ [x]) (int i) (int i + int (length g))
        = slice (t @ [y]) (int i) (int i + int (length g))"
      unfolding slice_nat
      by (simp only: window_without_last [OF i])
    then show "scan_window g (t @ [x]) i = scan_window g (t @ [y]) i"
      by (simp add: scan_window_def fun_eq_iff)
  qed simp_all
  then show ?thesis by (simp add: scan_windows_def)
qed

lemma round1_lower: "of_int lo \<le> x * 10 \<Longrightarrow> of_int lo / 10 \<le> round1 x"
proof -
  assume lo: "of_int lo \<le> x * 10"
  have "x * 10 \<le> of_int \<lceil>x * 10\<rceil>" by (rule le_of_int_ceiling)
  from round_half_even_bounds [OF lo this] have "lo \<le> round_half_even (x * 10)" by simp
  then have "(of_int lo :: rat) \<le> of_int (round_half_even (x * 10))"
    by (simp only: of_int_le_iff)
  then show ?thesis by (simp add: round1_def)
qed

text \<open>
  A window at offset \<open>p\<close> that equals the guide adds 1 to the sum, so the score is at least
  20, provided the loop reaches that offset: \<open>p\<close> must be below n - L.
\<close>

lemma self_window_counted:
  assumes reach: "p + length g < length t" and self: "window_at t (length g) p = g"
  shows "1 \<le> scan_windows g t \<and> 20 \<le> off_target_score_of g t"
proof -
  let ?A = "{i \<in> {0..<length t - length g}. hamming g (window_at t (length g) i) \<le> 4}"
  let ?f = "\<lambda>i. (1::rat) / 2 ^ hamming g (window_at t (length g) i)"
  have zero: "hamming g (window_at t (length g) p) = 0"
    by (simp add: self hamming_def)
  with reach have "p \<in> ?A" by simp
  moreover have "finite ?A" by simp
  moreover have "\<And>i. i \<in> ?A - {p} \<Longrightarrow> 0 \<le> ?f i" by simp
  ultimately have "?f p \<le> sum ?f ?A" by (intro member_le_sum)
  with zero have one: "1 \<le> scan_windows g t" by (simp add: scan_windows_sum)
  then have "of_int 200 \<le> min 100 (scan_windows g t * 20) * 10" by simp
  from round1_lower [OF this] one show ?thesis by (simp add: off_target_score_of_def)
qed

lemma scan_windows_spec: "scan_windows g t = spec_off_target_sum g t"
  by (simp add: scan_windows_sum spec_off_target_sum_def)

lemma normalized_spec: "min 100 (scan_windows g t * 20) = spec_normalized_score g t"
  by (simp add: spec_normalized_score_def scan_windows_spec mult.commute)

text \<open>
  The integer chosen by the rounding is a nearest one, and at a tie it is the even one.
\<close>

lemma round_half_even_nearest:
  "\<bar>of_int (round_half_even x) - x\<bar> \<le> 1/2
   \<and> (\<bar>of_int (round_half_even x) - x\<bar> = 1/2 \<longrightarrow> even (round_half_even x))"
proof -
  define f where "f = \<lfloor>x\<rfloor>"
  define d where "d = x - of_int f"
  have d: "0 \<le> d" "d < 1" unfolding d_def f_def by linarith+
  have x: "x = of_int f + d" by (simp add: d_def)
  consider "d < 1/2" | "1/2 < d" | "d = 1/2" "even f" | "d = 1/2" "odd f" by fastforce
  then show ?thesis
  proof cases
    case 1
    then have "round_half_even x = f" by (simp add: round_half_even_def f_def d_def Let_def)
    with 1 d x show ?thesis by simp
  next
    case 2
    then have "round_half_even x = f + 1"
      by (simp add: round_half_even_def f_def d_def Let_def)
    with 2 d x show ?thesis by simp
  next
    case 3
    then have "round_half_even x = f" by (simp add: round_half_even_def f_def d_def Let_def)
    with 3 x show ?thesis by simp
  next
    case 4
    then have "round_half_even x = f + 1"
      by (simp add: round_half_even_def f_def d_def Let_def)
    with 4 x show ?thesis by simp
  qed
qed

lemma round1_nearest_tenth:
  "round1 x = of_int (round_half_even (x * 10)) / 10
   \<and> \<bar>of_int (round_half_even (x * 10)) / 10 - x\<bar> \<le> 1/20
   \<and> (\<bar>of_int (round_half_even (x * 10)) / 10 - x\<bar> = 1/20
        \<longrightarrow> even (round_half_even (x * 10)))"
proof -
  let ?k = "round_half_even (x * 10)"
  have "\<bar>of_int ?k / 10 - x\<bar> = \<bar>of_int ?k - x * 10\<bar> / 10"
    by (simp add: abs_if field_simps)
  with round_half_even_nearest [of "x * 10"] show ?thesis
    by (simp add: round1_def)
qed

lemma stored_score_rounded:
  "\<exists>k. off_target_score_of g t = of_int k / 10
     \<and> \<bar>of_int k / 10 - spec_normalized_score g t\<bar> \<le> 1/20
     \<and> (\<bar>of_int k / 10 - spec_normalized_score g t\<bar> = 1/20 \<longrightarrow> even k)
     \<and> 0 \<le> k \<and> k \<le> 1000"
proof -
  let ?x = "spec_normalized_score g t"
  let ?k = "round_half_even (?x * 10)"
  have score: "off_target_score_of g t = round1 ?x"
    by (simp add: off_target_score_of_def normalized_spec)
  have "0 \<le> scan_windows g t" by (rule scan_windows_nonneg)
  then have "0 \<le> ?x" and "?x \<le> 100"
    by (simp_all add: normalized_spec [symmetric])
  then have "of_int 0 \<le> ?x * 10" and "?x * 10 \<le> of_int 1000" by simp_all
  from round_half_even_bounds [OF this] have range: "0 \<le> ?k" "?k \<le> 1000" by simp_all
  from round1_nearest_tenth [of ?x] score range show ?thesis by metis
qed

text \<open>
  C7: for guides no longer than the full sequence, each returned candidate is the input
  candidate with a score stored; the score is a whole number of tenths between 0 and 100
  that is nearest to min(100, 20 times the sum of 1/2^m(i) over the offsets i from 0 to
  n - L - 1 whose window has at most 4 mismatches), a tie going to the even tenth as
  Python's \<^verbatim>\<open>round\<close> does; and the window at offset n - L is not evaluated, so the last
  base of the full sequence has no influence on any score.
\<close>

theorem C7_off_target_score_formula:
  assumes "\<forall>c \<in> set grnas. length (g_sequence c) \<le> length t"
  shows "list_all2
           (\<lambda>c c'. \<exists>k. c' = c\<lparr>g_off_target_score := Some (of_int k / 10)\<rparr>
              \<and> \<bar>of_int k / 10 - spec_normalized_score (g_sequence c) t\<bar> \<le> 1/20
              \<and> (\<bar>of_int k / 10 - spec_normalized_score (g_sequence c) t\<bar> = 1/20 \<longrightarrow> even k)
              \<and> 0 \<le> k \<and> k \<le> 1000)
           grnas (check_off_targets grnas t)
       \<and> check_off_targets grnas (t @ [x]) = check_off_targets grnas (t @ [y])"
proof
  have "\<And>c. \<exists>k. c\<lparr>g_off_target_score := Some (off_target_score_of (g_sequence c) t)\<rparr>
                  = c\<lparr>g_off_target_score := Some (of_int k / 10)\<rparr>
              \<and> \<bar>of_int k / 10 - spec_normalized_score (g_sequence c) t\<bar> \<le> 1/20
              \<and> (\<bar>of_int k / 10 - spec_normalized_score (g_sequence c) t\<bar> = 1/20 \<longrightarrow> even k)
              \<and> 0 \<le> k \<and> k \<le> 1000"
  proof -
    fix c
    from stored_score_rounded [of "g_sequence c" t] obtain k where
      "off_target_score_of (g_sequence c) t = of_int k / 10"
      "\<bar>of_int k / 10 - spec_normalized_score (g_sequence c) t\<bar> \<le> 1/20"
      "\<bar>of_int k / 10 - spec_normalized_score (g_sequence c) t\<bar> = 1/20 \<longrightarrow> even k"
      "0 \<le> k" "k \<le> 1000"
      by blast
    then show "\<exists>k. c\<lparr>g_off_target_score := Some (off_target_score_of (g_sequence c) t)\<rparr>
                  = c\<lparr>g_off_target_score := Some (of_int k / 10)\<rparr>
              \<and> \<bar>of_int k / 10 - spec_normalized_score (g_sequence c) t\<bar> \<le> 1/20
              \<and> (\<bar>of_int k / 10 - spec_normalized_score (g_sequence c) t\<bar> = 1/20 \<longrightarrow> even k)
              \<and> 0 \<le> k \<and> k \<le> 1000"
      by (intro exI [of _ k]) simp
  qed
  then show "list_all2
           (\<lambda>c c'. \<exists>k. c' = c\<lparr>g_off_target_score := Some (of_int k / 10)\<rparr>
              \<and> \<bar>of_int k / 10 - spec_normalized_score (g_sequence c) t\<bar> \<le> 1/20
              \<and> (\<bar>of_int k / 10 - spec_normalized_score (g_sequence c) t\<bar> = 1/20 \<longrightarrow> even k)
              \<and> 0 \<le> k \<and> k \<le> 1000)
           grnas (check_off_targets grnas t)"
    unfolding check_off_targets_def list_all2_map2 by (intro list_all2_refl)
next
  show "check_off_targets grnas (t @ [x]) = check_off_targets grnas (t @ [y])"
    by (simp add: check_off_targets_def off_target_score_of_def scan_windows_last_base [of _ t x y])
qed

theorem C7_off_target_score_formula_witness:
  "length ''ATCGATCGATCGATCGATCG'' \<le> length ''TAGCATCGATCGATCGATCGA''
   \<and> check_off_targets
       [\<lparr>g_sequence = ''ATCGATCGATCGATCGATCG'', g_pam = ''AGG'', g_position = 0,
         g_gc_content = 1/2, g_off_target_score = None\<rparr>] ''TAGCATCGATCGATCGATCGA''
     = [\<lparr>g_sequence = ''ATCGATCGATCGATCGATCG'', g_pam = ''AGG'', g_position = 0,
          g_gc_content = 1/2, g_off_target_score = Some (of_int 12 / 10)\<rparr>]
   \<and> spec_normalized_score ''ATCGATCGATCGATCGATCG'' ''TAGCATCGATCGATCGATCGA'' = 5/4
   \<and> \<bar>of_int 12 / 10 - spec_normalized_score ''ATCGATCGATCGATCGATCG''
         ''TAGCATCGATCGATCGATCGA''\<bar> \<le> 1/20
   \<and> even (12 :: int)"
proof -
  let ?c = "\<lparr>g_sequence = ''ATCGATCGATCGATCGATCG'', g_pam = ''AGG'', g_position = 0,
             g_gc_content = 1/2, g_off_target_score = None\<rparr>"
  let ?t = "''TAGCATCGATCGATCGATCGA''"
  have h: "\<forall>c \<in> set [?c]. length (g_sequence c) \<le> length ?t" by simp
  have sum: "scan_windows ''ATCGATCGATCGATCGATCG'' ?t = 1/16" by code_simp
  have tie: "round1 (5/4) = 6/5" by code_simp
  have run: "check_off_targets [?c] ?t = [?c\<lparr>g_off_target_score := Some (of_int 12 / 10)\<rparr>]"
    by (simp add: check_off_targets_def off_target_score_of_def sum tie)
  have norm: "spec_normalized_score ''ATCGATCGATCGATCGATCG'' ?t = 5/4"
    using sum by (simp add: normalized_spec [symmetric])
  from C7_off_target_score_formula [OF h] run norm show ?thesis by simp
qed

lemma slice_window: "0 \<le> p \<Longrightarrow> slice t p (p + int L) = window_at t L (nat p)"
  using slice_nat [of t "nat p" L] by (simp add: window_at_def)

text \<open>
  A candidate built by \<^verbatim>\<open>design_grnas\<close> from a position \<^verbatim>\<open>find_pam_sites\<close>
  reports on the same cleaned sequence: its guide has 20 bases, occurs at its recorded
  start, and ends before the last base, because the PAM follows it.
\<close>

lemma pipeline_candidate_reached:
  assumes cleaned: "clean s = s"
    and found: "find_pam_sites s pam_type = Inr sites"
    and c: "c \<in> set (design_grnas s (map int sites) gc_min gc_max)"
  shows "0 \<le> g_position c \<and> length (g_sequence c) = 20
       \<and> slice s (g_position c) (g_position c + int (length (g_sequence c))) = g_sequence c
       \<and> g_position c + int (length (g_sequence c)) < int (length s)"
proof -
  from found obtain pattern where pat: "map_of pam_patterns pam_type = Some pattern"
    by (cases "map_of pam_patterns pam_type") (simp_all add: find_pam_sites_def)
  with found cleaned have sites: "sites = finditer_starts pattern s"
    by (simp add: find_pam_sites_def)
  from design_grnas_member [OF c] obtain site where
    site: "site \<in> set (map int sites)" "20 \<le> site" and
    c_eq: "c = \<lparr>g_sequence = slice s (site - 20) site, g_pam = slice s site (site + 3),
          g_position = site - 20, g_gc_content = gc_fraction (slice s (site - 20) site),
          g_off_target_score = None\<rparr>"
    by blast
  from site obtain i where i: "i \<in> set sites" and site_i: "site = int i" by auto
  from i sites have la: "lookahead pattern (drop i s)" and le: "i \<le> length s"
    by (simp_all add: finditer_starts_member)
  from pam_patterns_cases [OF pat] have "3 \<le> length pattern" by auto
  with lookahead_length [OF la] le have before_end: "i < length s" by simp
  from before_end site_i have site_le: "site \<le> int (length s)" by simp
  have len: "length (slice s (site - 20) site) = 20"
    by (rule slice_guide_length [OF site(2) site_le])
  show ?thesis
    using c_eq site(2) len before_end site_i by simp
qed

text \<open>
  C2, as stated, at a candidate whose guide ends at the last base of the full sequence:
  the guide occurs verbatim at its recorded start 0, the loop runs over
  \<^verbatim>\<open>range(20 - 20)\<close>, no window is examined and the stored score is 0.
\<close>

theorem C2_self_window_at_end_not_scanned:
  "check_off_targets
     [\<lparr>g_sequence = ''ATCGATCGATCGATCGATCG'', g_pam = '''', g_position = 0,
       g_gc_content = 1/2, g_off_target_score = None\<rparr>] ''ATCGATCGATCGATCGATCG''
   = [\<lparr>g_sequence = ''ATCGATCGATCGATCGATCG'', g_pam = '''', g_position = 0,
        g_gc_content = 1/2, g_off_target_score = Some 0\<rparr>]
   \<and> slice ''ATCGATCGATCGATCGATCG'' 0 (0 + 20) = ''ATCGATCGATCGATCGATCG''"
  by (simp add: check_off_targets_def off_target_score_of_def scan_windows_def
      round1_def round_half_even_def slice_def)

text \<open>
  C2, amended: for every candidate whose guide occurs verbatim in the full sequence at its
  recorded start and ends before the last base (start + L < n), the sum includes the
  self-alignment window's contribution of 1, that is 1.0 x 20 = 20 after scaling, and the
  stored score is at least 20. Every candidate \<^verbatim>\<open>design_grnas\<close> builds from the
  positions \<^verbatim>\<open>find_pam_sites\<close> reports on the same cleaned sequence is such a
  candidate, so in the pipeline every stored score is at least 20.
\<close>

theorem C2_self_window_counted_when_scanned:
  "(\<forall>c \<in> set grnas.
      0 \<le> g_position c
      \<and> slice t (g_position c) (g_position c + int (length (g_sequence c))) = g_sequence c
      \<and> g_position c + int (length (g_sequence c)) < int (length t)
      \<longrightarrow> (\<exists>v. c\<lparr>g_off_target_score := Some v\<rparr> \<in> set (check_off_targets grnas t)
               \<and> 1 \<le> scan_windows (g_sequence c) t \<and> 20 \<le> v))
   \<and> (clean s = s \<and> find_pam_sites s pam_type = Inr sites \<longrightarrow>
        (\<forall>c \<in> set (check_off_targets (design_grnas s (map int sites) gc_min gc_max) s).
           \<exists>v. g_off_target_score c = Some v \<and> 20 \<le> v))"
proof (intro conjI ballI impI)
  fix c
  assume c: "c \<in> set grnas"
    and occ: "0 \<le> g_position c
      \<and> slice t (g_position c) (g_position c + int (length (g_sequence c))) = g_sequence c
      \<and> g_position c + int (length (g_sequence c)) < int (length t)"
  from occ have "0 \<le> g_position c" by blast
  from slice_window [OF this, of t "length (g_sequence c)"] occ
  have win: "window_at t (length (g_sequence c)) (nat (g_position c)) = g_sequence c"
    by (elim conjE) (simp only:)
  from occ have reach: "nat (g_position c) + length (g_sequence c) < length t" by linarith
  from self_window_counted [OF reach win]
  have score: "1 \<le> scan_windows (g_sequence c) t"
    "20 \<le> off_target_score_of (g_sequence c) t"
    by simp_all
  from c have "c\<lparr>g_off_target_score := Some (off_target_score_of (g_sequence c) t)\<rparr>
      \<in> set (check_off_targets grnas t)"
    by (simp add: check_off_targets_def)
  with score show "\<exists>v. c\<lparr>g_off_target_score := Some v\<rparr> \<in> set (check_off_targets grnas t)
      \<and> 1 \<le> scan_windows (g_sequence c) t \<and> 20 \<le> v"
    by blast
next
  fix c
  assume pipeline: "clean s = s \<and> find_pam_sites s pam_type = Inr sites"
    and "c \<in> set (check_off_targets (design_grnas s (map int sites) gc_min gc_max) s)"
  then obtain g where g: "g \<in> set (design_grnas s (map int sites) gc_min gc_max)"
    and c_eq: "c = g\<lparr>g_off_target_score := Some (off_target_score_of (g_sequence g) s)\<rparr>"
    by (auto simp: check_off_targets_def)
  from pipeline have "clean s = s" and "find_pam_sites s pam_type = Inr sites" by simp_all
  from pipeline_candidate_reached [OF this g]
  have occ: "0 \<le> g_position g"
    "slice s (g_position g) (g_position g + int (length (g_sequence g))) = g_sequence g"
    "g_position g + int (length (g_sequence g)) < int (length s)"
    by blast+
  from slice_window [OF occ(1), of s "length (g_sequence g)"] occ(2)
  have win: "window_at s (length (g_sequence g)) (nat (g_position g)) = g_sequence g"
    by (simp only:)
  from occ have reach: "nat (g_position g) + length (g_sequence g) < length s" by linarith
  from self_window_counted [OF reach win] c_eq
  show "\<exists>v. g_off_target_score c = Some v \<and> 20 \<le> v" by simp
qed

theorem C2_self_window_counted_when_scanned_witness:
  "(0 :: int) \<le> 0
   \<and> slice ''ATCGATCGATCGATCGATCGAGGATCG'' 0 (0 + int (length ''ATCGATCGATCGATCGATCG''))
       = ''ATCGATCGATCGATCGATCG''
   \<and> 0 + int (length ''ATCGATCGATCGATCGATCG'') < int (length ''ATCGATCGATCGATCGATCGAGGATCG'')
   \<and> clean ''ATCGATCGATCGATCGATCGAGGATCG'' = ''ATCGATCGATCGATCGATCGAGGATCG''
   \<and> find_pam_sites ''ATCGATCGATCGATCGATCGAGGATCG'' ''SpCas9 (NGG)'' = Inr [20]
   \<and> check_off_targets
       (design_grnas ''ATCGATCGATCGATCGATCGAGGATCG'' (map int [20]) (2/5) (3/5))
       ''ATCGATCGATCGATCGATCGAGGATCG''
     = [\<lparr>g_sequence = ''ATCGATCGATCGATCGATCG'', g_pam = ''AGG'', g_position = 0,
          g_gc_content = 1/2, g_off_target_score = Some (45/2)\<rparr>]
   \<and> (20 :: rat) \<le> 45/2"
proof -
  let ?t = "''ATCGATCGATCGATCGATCGAGGATCG''"
  let ?c = "\<lparr>g_sequence = ''ATCGATCGATCGATCGATCG'', g_pam = ''AGG'', g_position = 0,
             g_gc_content = 1/2, g_off_target_score = None\<rparr>"
  have occ: "slice ?t 0 (0 + int (length ''ATCGATCGATCGATCGATCG'')) = ''ATCGATCGATCGATCGATCG''"
    by (simp add: slice_def)
  have cleaned: "clean ?t = ?t" by (simp add: clean_def upper_char_def)
  have found: "find_pam_sites ?t ''SpCas9 (NGG)'' = Inr [20]"
    by (simp add: find_pam_sites_def pam_patterns_def finditer_starts_def clean_def
        upper_char_def)
  have built: "design_grnas ?t (map int [20]) (2/5) (3/5) = [?c]"
    by (simp add: slice_def gc_fraction_def)
  have sum: "scan_windows ''ATCGATCGATCGATCGATCG'' ?t = 9/8" by code_simp
  have r: "round1 (45/2) = 45/2" by code_simp
  have run: "check_off_targets [?c] ?t = [?c\<lparr>g_off_target_score := Some (45/2)\<rparr>]"
    by (simp add: check_off_targets_def off_target_score_of_def sum r)
  from C2_self_window_counted_when_scanned [of "[?c]" ?t ?t "''SpCas9 (NGG)''" "[20]" "2/5" "3/5"]
    occ cleaned found built run
  show ?thesis by simp
qed

section \<open>Properties of the efficiency scores\<close>

lemma gc_score_range: "0 \<le> gc_score s \<and> gc_score s \<le> 1"
  using gc_fraction_range [of s] by (auto simp: gc_score_def Let_def)

lemma self_complementarity_score_range:
  "0 \<le> self_complementarity_score s \<and> self_complementarity_score s \<le> 1"
proof -
  have "\<And>m::nat. 5 \<le> m \<Longrightarrow> m < 12 \<Longrightarrow> (of_nat m :: rat) \<le> 12 \<and> (5::rat) \<le> of_nat m"
  proof -
    fix m :: nat
    assume "5 \<le> m" and "m < 12"
    then have "(of_nat m :: rat) \<le> of_nat 12" and "(of_nat 5 :: rat) \<le> of_nat m"
      by (simp_all only: of_nat_le_iff)
    then show "(of_nat m :: rat) \<le> 12 \<and> (5::rat) \<le> of_nat m" by simp
  qed
  then show ?thesis
    by (auto simp: self_complementarity_score_def Let_def not_less not_le)
qed

lemma run_score_range:
  fixes r :: nat and k :: nat
  assumes "\<not> r \<le> k" and "\<not> k + 2 \<le> r"
  shows "0 \<le> 1 - ((of_nat r - of_nat k) / 2 :: rat) \<and> 1 - ((of_nat r - of_nat k) / 2 :: rat) \<le> 1"
proof -
  from assms have "r = k + 1" by simp
  then show ?thesis by simp
qed

lemma homopolymer_score_range: "0 \<le> homopolymer_score s \<and> homopolymer_score s \<le> 1"
proof -
  define t where "t = (if get_homopolymer_run s CHR ''T'' \<le> 2 then 1
      else if get_homopolymer_run s CHR ''T'' \<ge> 4 then 0
      else 1 - ((of_nat (get_homopolymer_run s CHR ''T'') - 2) / 2 :: rat))"
  define a where "a = (if get_homopolymer_run s CHR ''A'' \<le> 3 then 1
      else if get_homopolymer_run s CHR ''A'' \<ge> 5 then 0
      else 1 - ((of_nat (get_homopolymer_run s CHR ''A'') - 3) / 2 :: rat))"
  define g where "g = (if get_homopolymer_run s CHR ''G'' \<le> 3 then 1
      else if get_homopolymer_run s CHR ''G'' \<ge> 5 then 0
      else 1 - ((of_nat (get_homopolymer_run s CHR ''G'') - 3) / 2 :: rat))"
  define c where "c = (if get_homopolymer_run s CHR ''C'' \<le> 3 then 1
      else if get_homopolymer_run s CHR ''C'' \<ge> 5 then 0
      else 1 - ((of_nat (get_homopolymer_run s CHR ''C'') - 3) / 2 :: rat))"
  have t: "0 \<le> t \<and> t \<le> 1"
    using run_score_range [of "get_homopolymer_run s CHR ''T''" 2]
    by (simp add: t_def)
  have a: "0 \<le> a \<and> a \<le> 1"
    using run_score_range [of "get_homopolymer_run s CHR ''A''" 3]
    by (simp add: a_def)
  have g: "0 \<le> g \<and> g \<le> 1"
    using run_score_range [of "get_homopolymer_run s CHR ''G''" 3]
    by (simp add: g_def)
  have c: "0 \<le> c \<and> c \<le> 1"
    using run_score_range [of "get_homopolymer_run s CHR ''C''" 3]
    by (simp add: c_def)
  have "homopolymer_score s = 4/10 * t + 2/10 * a + 2/10 * g + 2/10 * c"
    by (simp add: homopolymer_score_def Let_def t_def a_def g_def c_def)
  with t a g c show ?thesis by simp
qed

lemma preference_weight_range:
  assumes "(pos, weights) \<in> set preferences"
  shows "0 \<le> (case map_of weights b of Some w \<Rightarrow> w | None \<Rightarrow> 3/10)
       \<and> (case map_of weights b of Some w \<Rightarrow> w | None \<Rightarrow> 3/10) \<le> 1"
  using assms by (auto simp: preferences_def)

lemma position_fold_range:
  assumes "set entries \<subseteq> set preferences" and "0 \<le> score" and "score \<le> of_nat count"
  shows "case fold (position_step s) entries (score, count) of
           (score', count') \<Rightarrow> 0 \<le> score' \<and> score' \<le> of_nat count'"
  using assms
proof (induction entries arbitrary: score count)
  case Nil
  then show ?case by simp
next
  case (Cons e entries)
  obtain pos weights where e: "e = (pos, weights)" by (cases e)
  with Cons.prems have "(pos, weights) \<in> set preferences" by simp
  from preference_weight_range [OF this, of "s ! (pos - 1)"]
  have w: "0 \<le> (case map_of weights (s ! (pos - 1)) of Some w \<Rightarrow> w | None \<Rightarrow> 3/10)"
       "(case map_of weights (s ! (pos - 1)) of Some w \<Rightarrow> w | None \<Rightarrow> 3/10) \<le> 1"
    by simp_all
  obtain score' count' where st: "position_step s e (score, count) = (score', count')"
    by (cases "position_step s e (score, count)")
  have "0 \<le> score' \<and> score' \<le> of_nat count'"
    using st e w Cons.prems(2,3)
    by (auto simp: position_step_def Let_def split: if_splits)
  with Cons.IH [of score' count'] Cons.prems(1) st show ?case by simp
qed

lemma position_score_range: "0 \<le> position_score s \<and> position_score s \<le> 1"
proof -
  obtain score count where f: "fold (position_step s) preferences (0, 0) = (score, count)"
    by (cases "fold (position_step s) preferences (0, 0)")
  from position_fold_range [of preferences 0 0 s] f
  have r: "0 \<le> score" "score \<le> of_nat count" by simp_all
  show ?thesis
  proof (cases "count > 0")
    case True
    with r have "score / of_nat count \<le> 1" by (simp add: divide_le_eq_1)
    with r True f show ?thesis by (simp add: position_score_def)
  next
    case False
    with f show ?thesis by (simp add: position_score_def)
  qed
qed

lemma calculate_all_scores_value:
  "calculate_all_scores s =
     Inr [(''gc_score'', gc_score s),
          (''self_complementarity'', self_complementarity_score s),
          (''homopolymer'', homopolymer_score s),
          (''position'', position_score s),
          (''final_score'', 25/100 * gc_score s + 25/100 * self_complementarity_score s
                             + 2/10 * homopolymer_score s + 3/10 * position_score s)]"
  by (simp add: calculate_all_scores_def score_weights_def Let_def mult.commute)

text \<open>
  C8: for a guide over \{A,T,G,C\} the call returns (it does not raise) the five entries
  in order; the four component scores lie in [0, 1], the final score is
  0.25 gc_score + 0.25 self_complementarity + 0.20 homopolymer + 0.30 position, and it
  lies in [0, 1] as well.
\<close>

theorem C8_scores_in_unit_interval:
  assumes "set g \<subseteq> set ''ATGC''"
  shows "\<exists>gc sc hp pos fin.
           calculate_all_scores g =
             Inr [(''gc_score'', gc), (''self_complementarity'', sc), (''homopolymer'', hp),
                  (''position'', pos), (''final_score'', fin)]
         \<and> gc = gc_score g \<and> sc = self_complementarity_score g
         \<and> hp = homopolymer_score g \<and> pos = position_score g
         \<and> 0 \<le> gc \<and> gc \<le> 1 \<and> 0 \<le> sc \<and> sc \<le> 1
         \<and> 0 \<le> hp \<and> hp \<le> 1 \<and> 0 \<le> pos \<and> pos \<le> 1
         \<and> fin = 25/100 * gc + 25/100 * sc + 20/100 * hp + 30/100 * pos
         \<and> 0 \<le> fin \<and> fin \<le> 1"
proof -
  let ?fin = "25/100 * gc_score g + 25/100 * self_complementarity_score g
              + 2/10 * homopolymer_score g + 3/10 * position_score g"
  have ranges: "0 \<le> gc_score g" "gc_score g \<le> 1"
    "0 \<le> self_complementarity_score g" "self_complementarity_score g \<le> 1"
    "0 \<le> homopolymer_score g" "homopolymer_score g \<le> 1"
    "0 \<le> position_score g" "position_score g \<le> 1"
    using gc_score_range [of g] self_complementarity_score_range [of g]
      homopolymer_score_range [of g] position_score_range [of g]
    by simp_all
  then have fin: "0 \<le> ?fin" "?fin \<le> 1" by simp_all
  have eq: "?fin = 25/100 * gc_score g + 25/100 * self_complementarity_score g
              + 20/100 * homopolymer_score g + 30/100 * position_score g"
    by simp
  show ?thesis
    using calculate_all_scores_value [of g] ranges fin eq by blast
qed

theorem C8_scores_in_unit_interval_witness:
  "set ''ATCGATCGATCGATCGATCG'' \<subseteq> set ''ATGC''
   \<and> calculate_all_scores ''ATCGATCGATCGATCGATCG'' =
       Inr [(''gc_score'', 1), (''self_complementarity'', 0), (''homopolymer'', 1),
            (''position'', 22/45), (''final_score'', 179/300)]
   \<and> (0 :: rat) \<le> 179/300 \<and> (179/300 :: rat) \<le> 1"
proof -
  have h: "set ''ATCGATCGATCGATCGATCG'' \<subseteq> set ''ATGC''" by simp
  have run: "calculate_all_scores ''ATCGATCGATCGATCGATCG'' =
       Inr [(''gc_score'', 1), (''self_complementarity'', 0), (''homopolymer'', 1),
            (''position'', 22/45), (''final_score'', 179/300)]"
    by code_simp
  from C8_scores_in_unit_interval [OF h] run h show ?thesis by simp
qed

text \<open>
  C9, as stated: for the guide of twenty G the GC fraction is exactly 1, which falls in
  the branch above 0.65, and the GC score is (1 - 1) / 0.35 = 0, which is not 1.
\<close>

theorem C9_gc_score_all_G_not_one:
  "gc_fraction ''GGGGGGGGGGGGGGGGGGGG'' = 1 \<and> gc_score ''GGGGGGGGGGGGGGGGGGGG'' \<noteq> 1"
  by (simp add: gc_score_def gc_fraction_def)

text \<open>
  C9, amended: for the guide of twenty G (GC fraction exactly 1.0) the GC score returned
  by the scoring engine is 0.0, also as the \<^verbatim>\<open>gc_score\<close> entry of
  \<^verbatim>\<open>calculate_all_scores\<close>.
\<close>

theorem C9_gc_score_all_G_is_zero:
  "gc_score ''GGGGGGGGGGGGGGGGGGGG'' = 0
   \<and> map_of (projr (calculate_all_scores ''GGGGGGGGGGGGGGGGGGGG'')) ''gc_score'' = Some 0"
  by (simp add: calculate_all_scores_value gc_score_def gc_fraction_def)

lemma fold_unchanged: "fold (\<lambda>i. id) xs a0 = a0"
  by (induction xs) simp_all

text \<open>
  C10: for every input of length at most 5 the self-complementarity score is 1: the end
  index \<open>j\<close> of a region starts at \<open>i + 5\<close> and stays below the length, so no region is
  examined and the tracked maximum stays 0.
\<close>

theorem C10_short_sequence_scores_one:
  assumes "length s \<le> 5"
  shows "max_complementary_of s = 0 \<and> self_complementarity_score s = 1"
proof -
  have inner: "\<And>i. [i + 5..<length s] = []" using assms by simp
  have "fold (\<lambda>i. fold (scan_region s (reverse_complement s) i) [i + 5..<length s])
          [0..<length s - 4] 0 = 0"
    by (simp only: inner fold.simps(1) fold_unchanged)
  then have "max_complementary_of s = 0" by (simp add: max_complementary_of_def)
  then show ?thesis by (simp add: self_complementarity_score_def)
qed

theorem C10_short_sequence_scores_one_witness:
  "length ''AATTC'' \<le> 5 \<and> max_complementary_of ''AATTC'' = 0
   \<and> self_complementarity_score ''AATTC'' = 1"
  using C10_short_sequence_scores_one [of "''AATTC''"] by simp

text \<open>
  C3, evaluated at the guide AAATTT, which is its own reverse complement: the whole guide
  (length 6) occurs in the reverse complement, so the maximum over every substring of
  length at least 5 is 6 and the score the claim describes is 1 - 1/7 = 6/7. The code's
  end index stops one short of the guide's length, the only region it examines is
  \<^verbatim>\<open>sequence[0:5]\<close>, its maximum is 5 and it returns 1.
\<close>

theorem C3_regions_ending_at_last_base_skipped:
  "max_complementary_of ''AAATTT'' = 5 \<and> self_complementarity_score ''AAATTT'' = 1
   \<and> spec_max_complementary ''AAATTT'' = 6
   \<and> spec_self_complementarity_score ''AAATTT'' = 6/7"
proof -
  let ?S = "{j - i | i j. i + 5 \<le> j \<and> j \<le> length ''AAATTT''
              \<and> str_in (take (j - i) (drop i ''AAATTT'')) (reverse_complement ''AAATTT'')}"
  have code: "max_complementary_of ''AAATTT'' = 5" by code_simp
  have "str_in (take (6 - 0) (drop 0 ''AAATTT'')) (reverse_complement ''AAATTT'')"
    by (simp add: reverse_complement_def complement_get_def complement_def)
  then have "\<exists>i j. 6 = j - i \<and> i + 5 \<le> j \<and> j \<le> length ''AAATTT''
      \<and> str_in (take (j - i) (drop i ''AAATTT'')) (reverse_complement ''AAATTT'')"
    by (intro exI [of _ 0] exI [of _ 6]) simp
  then have mem: "6 \<in> insert 0 ?S" by simp
  have bound: "\<And>y. y \<in> insert 0 ?S \<Longrightarrow> y \<le> 6" by auto
  have "?S \<subseteq> {..6}" by auto
  then have "finite (insert 0 ?S)" using finite_subset by blast
  from Max_eqI [OF this bound mem] have spec: "spec_max_complementary ''AAATTT'' = 6"
    by (simp add: spec_max_complementary_def)
  from code have "self_complementarity_score ''AAATTT'' = 1"
    by (simp add: self_complementarity_score_def)
  moreover from spec have "spec_self_complementarity_score ''AAATTT'' = 6/7"
    by (simp add: spec_self_complementarity_score_def)
  ultimately show ?thesis using code spec by simp
qed

end
